theory Spec2Isabelle
  imports Complex_Main
begin

section \<open>Keyframe interpolation and playback clock of the video editor\<close>

text \<open>
  The development embeds the two pieces of \<^verbatim>\<open>src/videogen/src/screens/VideoEditor.js\<close>
  that compute something: \<^verbatim>\<open>getCharacterProps\<close> (lines 121-166), which interpolates the
  character's properties between keyframes, and the playback clock, made of the
  animation effect (lines 95-118) and the footer buttons (lines 404-435).

  JavaScript numbers are modelled as real numbers: rounding, \<^verbatim>\<open>NaN\<close> and the infinities
  of IEEE doubles are outside the model, with one exception: a division by zero is made
  visible (\<open>js_divide\<close>), because one guard of the source exists to avoid it.
\<close>

subsection \<open>Data\<close>

text \<open>
  The object built at lines 160-165 has the four fields \<^verbatim>\<open>x, y, scale, rotation\<close>; a
  keyframe of \<^verbatim>\<open>jsonData.animation.character.animations\<close> (lines 26-31) has these and
  \<^verbatim>\<open>time\<close>.
\<close>

record props =
  x :: real
  y :: real
  scale :: real
  rotation :: real

record keyframe = props +
  time :: real

text \<open>
  \<^verbatim>\<open>getCharacterProps\<close> returns either an element of the array itself (lines 143, 152)
  or a fresh four-field object (line 160). \<open>NonFiniteObj\<close> stands for a fresh object
  computed from a factor that is not a finite number.
\<close>

datatype character_props =
  KeyframeObj keyframe
| InterpolatedObj props
| NonFiniteObj

text \<open>Reading a property of \<^verbatim>\<open>undefined\<close> throws a \<^verbatim>\<open>TypeError\<close>.\<close>

datatype js_error = TypeError

text \<open>The four fields the renderer reads from a keyframe (lines 261-263, 399-401).\<close>

definition props_of :: "keyframe \<Rightarrow> props" where
  "props_of k = \<lparr>x = x k, y = y k, scale = scale k, rotation = rotation k\<rparr>"

text \<open>
  \<^verbatim>\<open>animations[i]\<close>: an array read outside \<^verbatim>\<open>0 .. length - 1\<close> yields
  \<^verbatim>\<open>undefined\<close>, here \<open>None\<close>.
\<close>

definition at_index :: "'a list \<Rightarrow> int \<Rightarrow> 'a option" where
  "at_index xs i = (if 0 \<le> i \<and> i < int (length xs) then Some (xs ! nat i) else None)"

subsection \<open>The interpolator\<close>

text \<open>
  The loop of lines 128-135, started at index \<open>i\<close> with the current values of
  \<^verbatim>\<open>beforeIndex\<close> and \<^verbatim>\<open>afterIndex\<close>; it runs over the remaining elements.
\<close>

fun find_indices :: "keyframe list \<Rightarrow> real \<Rightarrow> int \<Rightarrow> int \<times> int \<Rightarrow> int \<times> int" where
  "find_indices [] currentTime i (beforeIndex, afterIndex) = (beforeIndex, afterIndex)"
| "find_indices (k # ks) currentTime i (beforeIndex, afterIndex) =
     find_indices ks currentTime (i + 1)
       (if time k \<le> currentTime then i else beforeIndex,
        if time k \<ge> currentTime \<and> afterIndex = - 1 then i else afterIndex)"

text \<open>Lines 125-139: the loop from \<open>(-1, -1)\<close>, then the two fallbacks.\<close>

definition select_indices :: "keyframe list \<Rightarrow> real \<Rightarrow> int \<times> int" where
  "select_indices animations currentTime =
     (case find_indices animations currentTime 0 (- 1, - 1) of
        (beforeIndex, afterIndex) \<Rightarrow>
          (if beforeIndex = - 1 then 0 else beforeIndex,
           if afterIndex = - 1 then int (length animations) - 1 else afterIndex))"

text \<open>
  A JavaScript division by zero returns \<^verbatim>\<open>NaN\<close> or an infinity; \<open>None\<close> stands for
  such a quotient.
\<close>

definition js_divide :: "real \<Rightarrow> real \<Rightarrow> real option" where
  "js_divide a b = (if b = 0 then None else Some (a / b))"

text \<open>
  Lines 156-157. The constants \<^verbatim>\<open>before\<close> and \<^verbatim>\<open>after\<close> of lines 147-148 are
  written \<open>before_k\<close> and \<open>after_k\<close>.
\<close>

definition interpolation_factor :: "keyframe \<Rightarrow> keyframe \<Rightarrow> real \<Rightarrow> real option" where
  "interpolation_factor before_k after_k currentTime =
     (let timeDiff = time after_k - time before_k
      in if timeDiff = 0 then Some 0 else js_divide (currentTime - time before_k) timeDiff)"

text \<open>Lines 156-165.\<close>

definition interpolate :: "keyframe \<Rightarrow> keyframe \<Rightarrow> real \<Rightarrow> character_props" where
  "interpolate before_k after_k currentTime =
     (case interpolation_factor before_k after_k currentTime of
        None \<Rightarrow> NonFiniteObj
      | Some factor \<Rightarrow>
          InterpolatedObj
            \<lparr>x = x before_k + (x after_k - x before_k) * factor,
             y = y before_k + (y after_k - y before_k) * factor,
             scale = scale before_k + (scale after_k - scale before_k) * factor,
             rotation = rotation before_k + (rotation after_k - rotation before_k) * factor\<rparr>)"

text \<open>
  Lines 121-166. \<^verbatim>\<open>animations[beforeIndex].time\<close> at line 142 and
  \<^verbatim>\<open>after.time\<close> at line 156 throw when the element is \<^verbatim>\<open>undefined\<close>.
\<close>

definition getCharacterProps :: "keyframe list \<Rightarrow> real \<Rightarrow> js_error + character_props" where
  "getCharacterProps animations currentTime =
     (let beforeIndex = fst (select_indices animations currentTime);
          afterIndex = snd (select_indices animations currentTime)
      in case at_index animations beforeIndex of
           None \<Rightarrow> Inl TypeError
         | Some before_k \<Rightarrow>
             if time before_k = currentTime then Inr (KeyframeObj before_k)
             else if beforeIndex = afterIndex then Inr (KeyframeObj before_k)
             else (case at_index animations afterIndex of
                     None \<Rightarrow> Inl TypeError
                   | Some after_k \<Rightarrow> Inr (interpolate before_k after_k currentTime)))"

text \<open>The keyframes of the initial document (lines 26-31).\<close>

definition demo_animations :: "keyframe list" where
  "demo_animations =
     [\<lparr>x = 10, y = 50, scale = 1, rotation = 0, time = 0\<rparr>,
      \<lparr>x = 70, y = 50, scale = 12 / 10, rotation = 0, time = 30\<rparr>,
      \<lparr>x = 40, y = 70, scale = 1, rotation = 45, time = 60\<rparr>,
      \<lparr>x = 10, y = 50, scale = 1, rotation = 0, time = 90\<rparr>]"

text \<open>A keyframe list that is not in time order, with two keyframes at time 5.\<close>

definition unordered_animations :: "keyframe list" where
  "unordered_animations =
     [\<lparr>x = 1, y = 10, scale = 1, rotation = 0, time = 5\<rparr>,
      \<lparr>x = 2, y = 20, scale = 2, rotation = 90, time = 5\<rparr>,
      \<lparr>x = 3, y = 30, scale = 3, rotation = 180, time = 3\<rparr>,
      \<lparr>x = 4, y = 40, scale = 4, rotation = 270, time = 9\<rparr>,
      \<lparr>x = 5, y = 50, scale = 5, rotation = 360, time = 7\<rparr>]"

subsection \<open>The playback clock\<close>

text \<open>
  The component's state that the clock uses: the React states \<^verbatim>\<open>currentTime\<close> and
  \<^verbatim>\<open>isPlaying\<close> (lines 36-37), the refs \<^verbatim>\<open>lastUpdateTimeRef\<close> and
  \<^verbatim>\<open>animationFrameRef\<close> (lines 41-42, \<open>None\<close> is \<^verbatim>\<open>null\<close>), and
  \<^verbatim>\<open>jsonData.project.duration\<close>, which is fixed here: the document is not edited while
  the clock is observed. Two fields belong to the browser: \<open>frameCallbacks\<close>, the handles
  of the callbacks waiting for the next animation frame (each of them is
  \<^verbatim>\<open>updateAnimation\<close>, the only callback this component requests), and \<open>frameHandle\<close>,
  the last handle issued. Times of \<^verbatim>\<open>Date.now()\<close> are in milliseconds.
\<close>

record clock =
  currentTime :: real
  isPlaying :: bool
  lastUpdateTime :: real
  animationFrameRef :: "nat option"
  frameCallbacks :: "nat list"
  frameHandle :: nat
  duration :: real

text \<open>
  The browser's \<^verbatim>\<open>requestAnimationFrame\<close> issues the next handle, which is never 0, and
  queues the callback; \<^verbatim>\<open>cancelAnimationFrame\<close> removes it from the queue.
\<close>

definition requestAnimationFrame :: "clock \<Rightarrow> nat \<times> clock" where
  "requestAnimationFrame s =
     (let h = frameHandle s + 1
      in (h, s\<lparr>frameHandle := h, frameCallbacks := frameCallbacks s @ [h]\<rparr>))"

definition cancelAnimationFrame :: "nat \<Rightarrow> clock \<Rightarrow> clock" where
  "cancelAnimationFrame h s = s\<lparr>frameCallbacks := removeAll h (frameCallbacks s)\<rparr>"

text \<open>
  Lines 97-108, called at wall-clock time \<open>now\<close>. The updater given to
  \<^verbatim>\<open>setCurrentTime\<close> (lines 102-105) is applied to the state at once.
\<close>

definition updateAnimation :: "real \<Rightarrow> clock \<Rightarrow> clock" where
  "updateAnimation now s =
     (let deltaTime = (now - lastUpdateTime s) / 1000;
          s1 = s\<lparr>lastUpdateTime := now\<rparr>;
          newTime = currentTime s1 + deltaTime;
          s2 = s1\<lparr>currentTime := (if newTime \<ge> duration s1 then 0 else newTime)\<rparr>
      in case requestAnimationFrame s2 of
           (h, s3) \<Rightarrow> s3\<lparr>animationFrameRef := Some h\<rparr>)"

text \<open>The body of the effect (lines 96 and 110) and its cleanup (lines 112-116).\<close>

definition start_effect :: "clock \<Rightarrow> clock" where
  "start_effect s =
     (if isPlaying s
      then case requestAnimationFrame s of (h, s1) \<Rightarrow> s1\<lparr>animationFrameRef := Some h\<rparr>
      else s)"

definition cleanup_effect :: "clock \<Rightarrow> clock" where
  "cleanup_effect s =
     (case animationFrameRef s of
        None \<Rightarrow> s
      | Some h \<Rightarrow> if h \<noteq> 0 then cancelAnimationFrame h s else s)"

text \<open>
  The Play/Pause button (line 416) flips \<^verbatim>\<open>isPlaying\<close>. The effect depends on
  \<^verbatim>\<open>isPlaying\<close> (line 118), so React runs the cleanup of the previous run, which exists
  when that run found \<^verbatim>\<open>isPlaying\<close> true, and then the effect again. The three steps
  form one transition: no animation frame is delivered between them.
\<close>

definition play_pause :: "clock \<Rightarrow> clock" where
  "play_pause s =
     (let s1 = s\<lparr>isPlaying := \<not> isPlaying s\<rparr>;
          s2 = (if isPlaying s then cleanup_effect s1 else s1)
      in start_effect s2)"

text \<open>
  An animation frame at time \<open>now\<close>: the browser empties its queue and calls every
  callback that was in it.
\<close>

definition animation_frame :: "real \<Rightarrow> clock \<Rightarrow> clock" where
  "animation_frame now s =
     fold (\<lambda>h. updateAnimation now) (frameCallbacks s) (s\<lparr>frameCallbacks := []\<rparr>)"

text \<open>The footer buttons of lines 406, 422 and 428-432.\<close>

definition skip_back :: "clock \<Rightarrow> clock" where
  "skip_back s = s\<lparr>currentTime := max 0 (currentTime s - 10)\<rparr>"

definition reset :: "clock \<Rightarrow> clock" where
  "reset s = s\<lparr>currentTime := 0\<rparr>"

definition skip_forward :: "clock \<Rightarrow> clock" where
  "skip_forward s = s\<lparr>currentTime := min (duration s) (currentTime s + 10)\<rparr>"

text \<open>
  The state after mounting (lines 36-42), for a document of duration \<open>d\<close> mounted at
  time \<open>mountTime\<close>.
\<close>

definition initial_clock :: "real \<Rightarrow> real \<Rightarrow> clock" where
  "initial_clock d mountTime =
     \<lparr>currentTime = 0, isPlaying = False, lastUpdateTime = mountTime,
      animationFrameRef = None, frameCallbacks = [], frameHandle = 0, duration = d\<rparr>"

text \<open>What can happen to the clock: a click on one of the four buttons, or a frame.\<close>

datatype event = PlayPause | Frame real | SkipBack | Reset | SkipForward

fun step :: "event \<Rightarrow> clock \<Rightarrow> clock" where
  "step PlayPause s = play_pause s"
| "step (Frame now) s = animation_frame now s"
| "step SkipBack s = skip_back s"
| "step Reset s = reset s"
| "step SkipForward s = skip_forward s"

fun is_frame :: "event \<Rightarrow> bool" where
  "is_frame (Frame now) = True"
| "is_frame e = False"

definition run :: "event list \<Rightarrow> clock \<Rightarrow> clock" where
  "run es s = fold step es s"

text \<open>
  The invariant of the effect: while playing, exactly one callback is queued and
  \<^verbatim>\<open>animationFrameRef\<close> holds its handle; while paused, none is queued.
\<close>

definition frame_armed :: "clock \<Rightarrow> bool" where
  "frame_armed s =
     (if isPlaying s
      then (case animationFrameRef s of
              None \<Rightarrow> False
            | Some h \<Rightarrow> h \<noteq> 0 \<and> frameCallbacks s = [h])
      else frameCallbacks s = [])"

subsection \<open>The scan of the keyframes\<close>

lemma find_before_none:
  "(\<And>k. k \<in> set ks \<Longrightarrow> \<not> time k \<le> t) \<Longrightarrow> fst (find_indices ks t i (b, a)) = b"
  by (induction ks arbitrary: i a) auto

lemma find_before_last:
  "j < length ks \<Longrightarrow> time (ks ! j) \<le> t \<Longrightarrow>
   (\<And>j'. j < j' \<Longrightarrow> j' < length ks \<Longrightarrow> \<not> time (ks ! j') \<le> t) \<Longrightarrow>
   fst (find_indices ks t i (b, a)) = i + int j"
proof (induction ks arbitrary: i j b a)
  case Nil
  then show ?case by simp
next
  case (Cons k ks)
  show ?case
  proof (cases j)
    case 0
    have later: "\<not> time k' \<le> t" if "k' \<in> set ks" for k'
    proof -
      from that obtain n where "n < length ks" "ks ! n = k'"
        by (auto simp: in_set_conv_nth)
      with Cons.prems(3) [of "Suc n"] 0 show ?thesis by auto
    qed
    from Cons.prems(2) 0 have "time k \<le> t" by simp
    then show ?thesis using 0 find_before_none [of ks t "i + 1" i] later by simp
  next
    case (Suc n)
    have "fst (find_indices ks t (i + 1) (b', a')) = (i + 1) + int n" for b' a'
    proof (rule Cons.IH)
      show "n < length ks" using Cons.prems(1) Suc by simp
      show "time (ks ! n) \<le> t" using Cons.prems(2) Suc by simp
      show "\<not> time (ks ! j') \<le> t" if "n < j'" "j' < length ks" for j'
        using Cons.prems(3) [of "Suc j'"] that Suc by simp
    qed
    then show ?thesis using Suc by simp
  qed
qed

lemma find_after_kept:
  "a \<noteq> - 1 \<Longrightarrow> snd (find_indices ks t i (b, a)) = a"
  by (induction ks arbitrary: i b) auto

lemma find_after_none:
  "(\<And>k. k \<in> set ks \<Longrightarrow> \<not> time k \<ge> t) \<Longrightarrow> snd (find_indices ks t i (b, a)) = a"
  by (induction ks arbitrary: i b) auto

lemma find_after_first:
  "0 \<le> i \<Longrightarrow> j < length ks \<Longrightarrow> time (ks ! j) \<ge> t \<Longrightarrow>
   (\<And>j'. j' < j \<Longrightarrow> \<not> time (ks ! j') \<ge> t) \<Longrightarrow>
   snd (find_indices ks t i (b, - 1)) = i + int j"
proof (induction ks arbitrary: i j b)
  case Nil
  then show ?case by simp
next
  case (Cons k ks)
  show ?case
  proof (cases j)
    case 0
    with Cons.prems have "time k \<ge> t" "i \<noteq> - 1" by auto
    then show ?thesis using 0 find_after_kept [of i ks t "i + 1"] by simp
  next
    case (Suc n)
    from Cons.prems(4) [of 0] Suc have head: "\<not> time k \<ge> t" by simp
    have "snd (find_indices ks t (i + 1) (b', - 1)) = (i + 1) + int n" for b'
    proof (rule Cons.IH)
      show "0 \<le> i + 1" using Cons.prems(1) by simp
      show "n < length ks" using Cons.prems(2) Suc by simp
      show "time (ks ! n) \<ge> t" using Cons.prems(3) Suc by simp
      show "\<not> time (ks ! j') \<ge> t" if "j' < n" for j'
        using Cons.prems(4) [of "Suc j'"] that Suc by simp
    qed
    then show ?thesis using Suc head by simp
  qed
qed


lemma ex_last_index:
  "\<exists>k\<in>set ks. P k \<Longrightarrow>
   \<exists>j<length ks. P (ks ! j) \<and> (\<forall>j'. j < j' \<and> j' < length ks \<longrightarrow> \<not> P (ks ! j'))"
proof (induction ks)
  case Nil
  then show ?case by simp
next
  case (Cons k ks)
  show ?case
  proof (cases "\<exists>k'\<in>set ks. P k'")
    case True
    with Cons.IH obtain j where j: "j < length ks" "P (ks ! j)"
      "\<forall>j'. j < j' \<and> j' < length ks \<longrightarrow> \<not> P (ks ! j')" by blast
    have "\<not> P ((k # ks) ! j')" if "Suc j < j'" "j' < length (k # ks)" for j'
      using that j(3) by (cases j') auto
    with j(1,2) show ?thesis by (intro exI [of _ "Suc j"]) auto
  next
    case False
    with Cons.prems have "P k" by auto
    moreover have "\<not> P ((k # ks) ! j')" if "0 < j'" "j' < length (k # ks)" for j'
      using that False by (cases j') auto
    ultimately show ?thesis by (intro exI [of _ 0]) auto
  qed
qed

lemma ex_first_index:
  "\<exists>k\<in>set ks. P k \<Longrightarrow>
   \<exists>j<length ks. P (ks ! j) \<and> (\<forall>j'<j. \<not> P (ks ! j'))"
proof (induction ks)
  case Nil
  then show ?case by simp
next
  case (Cons k ks)
  show ?case
  proof (cases "P k")
    case True
    then show ?thesis by (intro exI [of _ 0]) auto
  next
    case False
    with Cons obtain j where j: "j < length ks" "P (ks ! j)" "\<forall>j'<j. \<not> P (ks ! j')"
      by auto
    have "\<not> P ((k # ks) ! j')" if "j' < Suc j" for j'
      using that j(3) False by (cases j') auto
    with j(1,2) show ?thesis by (intro exI [of _ "Suc j"]) auto
  qed
qed

lemma select_before_found:
  assumes "j < length ks" "time (ks ! j) \<le> t"
    and "\<And>j'. j < j' \<Longrightarrow> j' < length ks \<Longrightarrow> \<not> time (ks ! j') \<le> t"
  shows "fst (select_indices ks t) = int j"
proof -
  have "fst (find_indices ks t 0 (- 1, - 1)) = int j"
    using find_before_last [where i = 0 and b = "- 1" and a = "- 1", OF assms] by simp
  then show ?thesis
    by (auto simp: select_indices_def split: prod.splits)
qed

lemma select_before_fallback:
  assumes "\<And>k. k \<in> set ks \<Longrightarrow> \<not> time k \<le> t"
  shows "fst (select_indices ks t) = 0"
proof -
  have "fst (find_indices ks t 0 (- 1, - 1)) = - 1"
    using find_before_none [where i = 0 and b = "- 1" and a = "- 1", OF assms] by simp
  then show ?thesis
    by (auto simp: select_indices_def split: prod.splits)
qed

lemma select_after_found:
  assumes "j < length ks" "t \<le> time (ks ! j)"
    and "\<And>j'. j' < j \<Longrightarrow> \<not> t \<le> time (ks ! j')"
  shows "snd (select_indices ks t) = int j"
proof -
  have "snd (find_indices ks t 0 (- 1, - 1)) = int j"
    using find_after_first [of 0 j ks t "- 1"] assms by simp
  then show ?thesis
    by (auto simp: select_indices_def split: prod.splits)
qed

lemma select_after_fallback:
  assumes "\<And>k. k \<in> set ks \<Longrightarrow> \<not> t \<le> time k"
  shows "snd (select_indices ks t) = int (length ks) - 1"
proof -
  have "snd (find_indices ks t 0 (- 1, - 1)) = - 1"
    using find_after_none [of ks t 0 "- 1" "- 1"] assms by simp
  then show ?thesis
    by (auto simp: select_indices_def split: prod.splits)
qed

text \<open>What the scan selects, on any non-empty list.\<close>

lemma select_indices_char:
  assumes "ks \<noteq> []"
  shows "\<exists>bi ai. select_indices ks t = (int bi, int ai) \<and> bi < length ks \<and> ai < length ks \<and>
     (if \<exists>k\<in>set ks. time k \<le> t
      then time (ks ! bi) \<le> t \<and> (\<forall>j. bi < j \<and> j < length ks \<longrightarrow> \<not> time (ks ! j) \<le> t)
      else bi = 0) \<and>
     (if \<exists>k\<in>set ks. t \<le> time k
      then t \<le> time (ks ! ai) \<and> (\<forall>j<ai. \<not> t \<le> time (ks ! j))
      else ai = length ks - 1)"
proof -
  have "\<exists>bi<length ks. fst (select_indices ks t) = int bi \<and>
     (if \<exists>k\<in>set ks. time k \<le> t
      then time (ks ! bi) \<le> t \<and> (\<forall>j. bi < j \<and> j < length ks \<longrightarrow> \<not> time (ks ! j) \<le> t)
      else bi = 0)"
  proof (cases "\<exists>k\<in>set ks. time k \<le> t")
    case True
    from ex_last_index [of ks "\<lambda>k. time k \<le> t", OF True]
    obtain j where j: "j < length ks" "time (ks ! j) \<le> t"
      "\<forall>j'. j < j' \<and> j' < length ks \<longrightarrow> \<not> time (ks ! j') \<le> t" by blast
    then have "fst (select_indices ks t) = int j"
      by (intro select_before_found) auto
    with j True show ?thesis
      by (intro exI [of _ j]) simp
  next
    case False
    then have "fst (select_indices ks t) = 0"
      by (intro select_before_fallback) auto
    moreover have "0 < length ks" using assms by simp
    ultimately show ?thesis using False
      by (intro exI [of _ 0]) simp
  qed
  moreover have "\<exists>ai<length ks. snd (select_indices ks t) = int ai \<and>
     (if \<exists>k\<in>set ks. t \<le> time k
      then t \<le> time (ks ! ai) \<and> (\<forall>j<ai. \<not> t \<le> time (ks ! j))
      else ai = length ks - 1)"
  proof (cases "\<exists>k\<in>set ks. t \<le> time k")
    case True
    from ex_first_index [of ks "\<lambda>k. t \<le> time k", OF True]
    obtain j where j: "j < length ks" "t \<le> time (ks ! j)"
      "\<forall>j'<j. \<not> t \<le> time (ks ! j')" by blast
    then have "snd (select_indices ks t) = int j"
      by (intro select_after_found) auto
    with j True show ?thesis
      by (intro exI [of _ j]) simp
  next
    case False
    then have "snd (select_indices ks t) = int (length ks) - 1"
      by (intro select_after_fallback) auto
    moreover have "int (length ks) - 1 = int (length ks - 1)"
      using assms by (cases ks) auto
    ultimately have "snd (select_indices ks t) = int (length ks - 1)" by (simp only:)
    moreover have "length ks - 1 < length ks" using assms by simp
    ultimately show ?thesis using False
      by (intro exI [of _ "length ks - 1"]) simp
  qed
  ultimately obtain bi ai where
    b: "bi < length ks" "fst (select_indices ks t) = int bi"
      "if \<exists>k\<in>set ks. time k \<le> t
       then time (ks ! bi) \<le> t \<and> (\<forall>j. bi < j \<and> j < length ks \<longrightarrow> \<not> time (ks ! j) \<le> t)
       else bi = 0"
    and a: "ai < length ks" "snd (select_indices ks t) = int ai"
      "if \<exists>k\<in>set ks. t \<le> time k
       then t \<le> time (ks ! ai) \<and> (\<forall>j<ai. \<not> t \<le> time (ks ! j))
       else ai = length ks - 1"
    by blast
  from b(2) a(2) have "select_indices ks t = (int bi, int ai)"
    by (simp add: prod_eq_iff)
  with b(1,3) a(1,3) show ?thesis by blast
qed

subsection \<open>The result of the interpolator\<close>

lemma interpolation_factor_defined:
  "interpolation_factor kb ka t =
     Some (if time ka = time kb then 0 else (t - time kb) / (time ka - time kb))"
  by (simp add: interpolation_factor_def js_divide_def)

lemma getCharacterProps_selected:
  assumes "select_indices ks t = (int bi, int ai)" "bi < length ks" "ai < length ks"
  shows "getCharacterProps ks t =
     (if time (ks ! bi) = t \<or> bi = ai then Inr (KeyframeObj (ks ! bi))
      else Inr (interpolate (ks ! bi) (ks ! ai) t))"
  using assms by (simp add: getCharacterProps_def at_index_def Let_def)

lemma select_indices_between:
  assumes "sorted (map time ks)" "Suc i < length ks" "time (ks ! i) < t" "t < time (ks ! Suc i)"
  shows "select_indices ks t = (int i, int (Suc i))"
proof -
  have mono: "time (ks ! m) \<le> time (ks ! n)" if "m \<le> n" "n < length ks" for m n
    using sorted_nth_mono [OF assms(1), of m n] that by simp
  have "fst (select_indices ks t) = int i"
  proof (rule select_before_found)
    show "i < length ks" using assms(2) by simp
    show "time (ks ! i) \<le> t" using assms(3) by simp
    show "\<not> time (ks ! j') \<le> t" if "i < j'" "j' < length ks" for j'
      using mono [of "Suc i" j'] that assms(4) by simp
  qed
  moreover have "snd (select_indices ks t) = int (Suc i)"
  proof (rule select_after_found)
    show "Suc i < length ks" by (rule assms(2))
    show "t \<le> time (ks ! Suc i)" using assms(4) by simp
    show "\<not> t \<le> time (ks ! j')" if "j' < Suc i" for j'
      using mono [of j' i] that assms(2,3) by simp
  qed
  ultimately show ?thesis by (simp add: prod_eq_iff)
qed

text \<open>
  C1: on a keyframe list in time order, at a query time strictly between the times of
  two adjacent keyframes, the interpolator returns a fresh object whose four fields are
  each \<open>b + (a - b) * (t - tb) / (ta - tb)\<close>, where \<open>b\<close> and \<open>a\<close> are the field's
  values and \<open>tb\<close> and \<open>ta\<close> the times of the earlier and the later keyframe. On the
  keyframes of the initial document the query at time 45 gives x = 55, y = 60,
  scale = 1.1, rotation = 22.5.
\<close>

theorem linear_between_adjacent:
  assumes "sorted (map time ks)" "Suc i < length ks"
    and "time (ks ! i) < t" "t < time (ks ! Suc i)"
  shows "getCharacterProps ks t = Inr (InterpolatedObj
      \<lparr>x = x (ks ! i) + (x (ks ! Suc i) - x (ks ! i)) * (t - time (ks ! i))
             / (time (ks ! Suc i) - time (ks ! i)),
       y = y (ks ! i) + (y (ks ! Suc i) - y (ks ! i)) * (t - time (ks ! i))
             / (time (ks ! Suc i) - time (ks ! i)),
       scale = scale (ks ! i) + (scale (ks ! Suc i) - scale (ks ! i)) * (t - time (ks ! i))
             / (time (ks ! Suc i) - time (ks ! i)),
       rotation = rotation (ks ! i) + (rotation (ks ! Suc i) - rotation (ks ! i))
             * (t - time (ks ! i)) / (time (ks ! Suc i) - time (ks ! i))\<rparr>)"
proof -
  have sel: "select_indices ks t = (int i, int (Suc i))"
    using assms by (rule select_indices_between)
  have "getCharacterProps ks t = Inr (interpolate (ks ! i) (ks ! Suc i) t)"
    using getCharacterProps_selected [OF sel] assms(2,3) by simp
  moreover have "time (ks ! Suc i) \<noteq> time (ks ! i)"
    using assms(3,4) by simp
  ultimately show ?thesis
    by (simp add: interpolate_def interpolation_factor_defined)
qed

theorem linear_between_adjacent_witness:
  "sorted (map time demo_animations) \<and> Suc 1 < length demo_animations \<and>
   time (demo_animations ! 1) < 45 \<and> 45 < time (demo_animations ! Suc 1) \<and>
   getCharacterProps demo_animations 45 =
     Inr (InterpolatedObj \<lparr>x = 55, y = 60, scale = 11 / 10, rotation = 45 / 2\<rparr>)"
  using linear_between_adjacent [of demo_animations 1 45]
  by (simp add: demo_animations_def)

lemma getCharacterProps_before_first:
  assumes "ks \<noteq> []" "\<forall>k\<in>set ks. t < time k"
  shows "getCharacterProps ks t = Inr (KeyframeObj (hd ks))"
proof -
  have len: "0 < length ks" using assms(1) by simp
  have "fst (select_indices ks t) = 0"
    using assms(2) by (intro select_before_fallback) auto
  moreover have "snd (select_indices ks t) = int 0"
  proof (rule select_after_found)
    show "0 < length ks" by (rule len)
    show "t \<le> time (ks ! 0)" using assms(2) len by (simp add: less_imp_le)
  qed simp
  ultimately have "select_indices ks t = (int 0, int 0)"
    by (simp add: prod_eq_iff)
  from getCharacterProps_selected [OF this len len] show ?thesis
    using assms(1) by (simp add: hd_conv_nth)
qed

lemma getCharacterProps_after_last:
  assumes "ks \<noteq> []" "\<forall>k\<in>set ks. time k < t"
  shows "getCharacterProps ks t = Inr (KeyframeObj (last ks))"
proof -
  have len: "length ks - 1 < length ks" using assms(1) by simp
  have eq: "int (length ks) - 1 = int (length ks - 1)"
    using assms(1) by (cases ks) auto
  have "fst (select_indices ks t) = int (length ks - 1)"
  proof (rule select_before_found)
    show "length ks - 1 < length ks" by (rule len)
    show "time (ks ! (length ks - 1)) \<le> t" using assms(2) len by (simp add: less_imp_le)
  qed simp
  moreover have "snd (select_indices ks t) = int (length ks) - 1"
    using assms(2) by (intro select_after_fallback) auto
  ultimately have "select_indices ks t = (int (length ks - 1), int (length ks - 1))"
    using eq by (simp only: prod_eq_iff fst_conv snd_conv simp_thms)
  from getCharacterProps_selected [OF this len len] show ?thesis
    using assms(1) by (simp add: last_conv_nth)
qed

text \<open>
  C4: on a non-empty list, a query time below every keyframe time returns the first
  keyframe and a query time above every keyframe time returns the last keyframe. On the
  keyframes of the initial document the query at time 150 returns the keyframe at 90.
\<close>

theorem hold_at_boundaries:
  assumes "ks \<noteq> []"
  shows "((\<forall>k\<in>set ks. t < time k) \<longrightarrow> getCharacterProps ks t = Inr (KeyframeObj (hd ks))) \<and>
         ((\<forall>k\<in>set ks. time k < t) \<longrightarrow> getCharacterProps ks t = Inr (KeyframeObj (last ks)))"
  using assms getCharacterProps_before_first [of ks t] getCharacterProps_after_last [of ks t]
  by blast

theorem hold_at_boundaries_witness:
  "demo_animations \<noteq> [] \<and>
   getCharacterProps demo_animations (- 5) =
     Inr (KeyframeObj \<lparr>x = 10, y = 50, scale = 1, rotation = 0, time = 0\<rparr>) \<and>
   getCharacterProps demo_animations 150 =
     Inr (KeyframeObj \<lparr>x = 10, y = 50, scale = 1, rotation = 0, time = 90\<rparr>)"
  using hold_at_boundaries [of demo_animations "- 5"]
    hold_at_boundaries [of demo_animations 150]
  by (simp add: demo_animations_def)

text \<open>
  C2 fails on a list that is not in time order: at query time 6 the code selects the
  keyframes at positions 2 (time 3) and 3 (time 9), although position 0 has the greater
  time 5 below 6 and position 4 the smaller time 7 above 6.
\<close>

theorem before_after_selection_counterexample:
  "select_indices unordered_animations 6 = (2, 3) \<and>
   time (unordered_animations ! 0) \<le> 6 \<and>
   time (unordered_animations ! 2) < time (unordered_animations ! 0) \<and>
   6 \<le> time (unordered_animations ! 4) \<and>
   time (unordered_animations ! 4) < time (unordered_animations ! 3)"
  by (simp add: unordered_animations_def select_indices_def)

text \<open>
  C2, as the code has it: on a non-empty list, \<open>before\<close> is the last keyframe in
  sequence order whose time is at most the query time (the first keyframe when there is
  none), and \<open>after\<close> is the first keyframe in sequence order whose time is at least the
  query time (the last keyframe when there is none). When the list is in time order,
  \<open>before\<close> has the greatest time at most the query time and \<open>after\<close> the smallest time
  at least the query time.
\<close>

theorem before_after_selection:
  assumes "ks \<noteq> []"
  shows "\<exists>bi ai. select_indices ks t = (int bi, int ai) \<and> bi < length ks \<and> ai < length ks \<and>
     (if \<exists>k\<in>set ks. time k \<le> t
      then time (ks ! bi) \<le> t \<and> (\<forall>j. bi < j \<and> j < length ks \<longrightarrow> \<not> time (ks ! j) \<le> t)
      else bi = 0) \<and>
     (if \<exists>k\<in>set ks. t \<le> time k
      then t \<le> time (ks ! ai) \<and> (\<forall>j<ai. \<not> t \<le> time (ks ! j))
      else ai = length ks - 1) \<and>
     (sorted (map time ks) \<longrightarrow>
        (\<forall>k\<in>set ks. time k \<le> t \<longrightarrow> time k \<le> time (ks ! bi)) \<and>
        (\<forall>k\<in>set ks. t \<le> time k \<longrightarrow> time (ks ! ai) \<le> time k))"
proof -
  from select_indices_char [OF assms, of t] obtain bi ai where
    sel: "select_indices ks t = (int bi, int ai)" "bi < length ks" "ai < length ks"
    and b: "if \<exists>k\<in>set ks. time k \<le> t
      then time (ks ! bi) \<le> t \<and> (\<forall>j. bi < j \<and> j < length ks \<longrightarrow> \<not> time (ks ! j) \<le> t)
      else bi = 0"
    and a: "if \<exists>k\<in>set ks. t \<le> time k
      then t \<le> time (ks ! ai) \<and> (\<forall>j<ai. \<not> t \<le> time (ks ! j))
      else ai = length ks - 1"
    by blast
  have "time k \<le> time (ks ! bi)"
    if srt: "sorted (map time ks)" and k: "k \<in> set ks" "time k \<le> t" for k
  proof -
    from k(1) obtain n where n: "n < length ks" "ks ! n = k"
      by (auto simp: in_set_conv_nth)
    from k b have "\<forall>j. bi < j \<and> j < length ks \<longrightarrow> \<not> time (ks ! j) \<le> t"
      by (auto split: if_splits)
    with n k(2) have "n \<le> bi" by (meson not_le_imp_less)
    with sorted_nth_mono [OF srt, of n bi] sel(2) n show ?thesis by simp
  qed
  moreover have "time (ks ! ai) \<le> time k"
    if srt: "sorted (map time ks)" and k: "k \<in> set ks" "t \<le> time k" for k
  proof -
    from k(1) obtain n where n: "n < length ks" "ks ! n = k"
      by (auto simp: in_set_conv_nth)
    from k a have "\<forall>j<ai. \<not> t \<le> time (ks ! j)"
      by (auto split: if_splits)
    with n k(2) have "ai \<le> n" by (meson not_le_imp_less)
    with sorted_nth_mono [OF srt, of ai n] n show ?thesis by simp
  qed
  ultimately have "sorted (map time ks) \<longrightarrow>
        (\<forall>k\<in>set ks. time k \<le> t \<longrightarrow> time k \<le> time (ks ! bi)) \<and>
        (\<forall>k\<in>set ks. t \<le> time k \<longrightarrow> time (ks ! ai) \<le> time k)"
    by blast
  with sel a b show ?thesis by blast
qed

theorem before_after_selection_witness:
  "demo_animations \<noteq> [] \<and> sorted (map time demo_animations) \<and>
   (\<exists>bi ai. select_indices demo_animations 45 = (int bi, int ai) \<and>
      30 \<le> time (demo_animations ! bi) \<and> time (demo_animations ! bi) \<le> 45 \<and>
      45 \<le> time (demo_animations ! ai) \<and> time (demo_animations ! ai) \<le> 60)"
proof -
  have ne: "demo_animations \<noteq> []" and srt: "sorted (map time demo_animations)"
    by (simp_all add: demo_animations_def)
  have k1: "demo_animations ! 1 \<in> set demo_animations" "time (demo_animations ! 1) = 30"
    and k2: "demo_animations ! 2 \<in> set demo_animations" "time (demo_animations ! 2) = 60"
    by (simp_all add: demo_animations_def)
  from before_after_selection [OF ne, of 45] obtain bi ai where
    sel: "select_indices demo_animations 45 = (int bi, int ai)"
    and b: "if \<exists>k\<in>set demo_animations. time k \<le> 45
      then time (demo_animations ! bi) \<le> 45 \<and>
        (\<forall>j. bi < j \<and> j < length demo_animations \<longrightarrow> \<not> time (demo_animations ! j) \<le> 45)
      else bi = 0"
    and a: "if \<exists>k\<in>set demo_animations. 45 \<le> time k
      then 45 \<le> time (demo_animations ! ai) \<and> (\<forall>j<ai. \<not> 45 \<le> time (demo_animations ! j))
      else ai = length demo_animations - 1"
    and s: "sorted (map time demo_animations) \<longrightarrow>
        (\<forall>k\<in>set demo_animations. time k \<le> 45 \<longrightarrow> time k \<le> time (demo_animations ! bi)) \<and>
        (\<forall>k\<in>set demo_animations. 45 \<le> time k \<longrightarrow> time (demo_animations ! ai) \<le> time k)"
    by blast
  have e1: "\<exists>k\<in>set demo_animations. time k \<le> 45"
    using k1 by (intro bexI [of _ "demo_animations ! 1"]) simp_all
  have e2: "\<exists>k\<in>set demo_animations. 45 \<le> time k"
    using k2 by (intro bexI [of _ "demo_animations ! 2"]) simp_all
  from b e1 have "time (demo_animations ! bi) \<le> 45" by simp
  moreover from a e2 have "45 \<le> time (demo_animations ! ai)" by simp
  moreover from s srt k1 have "30 \<le> time (demo_animations ! bi)" by fastforce
  moreover from s srt k2 have "time (demo_animations ! ai) \<le> 60" by fastforce
  ultimately show ?thesis using ne srt sel by blast
qed

text \<open>
  C3 fails on a list that is not in time order: positions 0 and 1 both have time 5, but
  at query time 5 the code selects position 2 (time 3) as \<open>before\<close>, interpolates, and
  returns a fresh object with the values of position 0, not those of position 1.
\<close>

theorem exact_hit_counterexample:
  "time (unordered_animations ! 1) = 5 \<and>
   props_of (unordered_animations ! 1) = \<lparr>x = 2, y = 20, scale = 2, rotation = 90\<rparr> \<and>
   select_indices unordered_animations 5 = (2, 0) \<and>
   props_of (unordered_animations ! 2) = \<lparr>x = 3, y = 30, scale = 3, rotation = 180\<rparr> \<and>
   getCharacterProps unordered_animations 5 =
     Inr (InterpolatedObj \<lparr>x = 1, y = 10, scale = 1, rotation = 0\<rparr>)"
  by (simp add: unordered_animations_def getCharacterProps_def select_indices_def
      at_index_def interpolate_def interpolation_factor_def js_divide_def props_of_def)

text \<open>
  C3, as the code has it: on a list in time order, a query at the time of one of its
  keyframes returns, unchanged and without interpolation, the last keyframe in sequence
  order that has this time, which is the one selected as \<open>before\<close>; and at every query
  time, a selected \<open>before\<close> whose time is the query time is returned unchanged.
\<close>

theorem exact_hit_on_ordered_list:
  assumes "sorted (map time ks)" "k \<in> set ks"
  shows "(\<exists>i<length ks. fst (select_indices ks (time k)) = int i \<and> time (ks ! i) = time k \<and>
            (\<forall>j. i < j \<and> j < length ks \<longrightarrow> time (ks ! j) \<noteq> time k) \<and>
            getCharacterProps ks (time k) = Inr (KeyframeObj (ks ! i))) \<and>
         (\<forall>t. time (ks ! nat (fst (select_indices ks t))) = t \<longrightarrow>
            getCharacterProps ks t = Inr (KeyframeObj (ks ! nat (fst (select_indices ks t)))))"
proof
  have ne: "ks \<noteq> []" using assms(2) by auto
  from assms(2) obtain n where n: "n < length ks" "ks ! n = k"
    by (auto simp: in_set_conv_nth)
  have ex: "\<exists>k'\<in>set ks. time k' \<le> time k" using assms(2) by auto
  from select_indices_char [OF ne, of "time k"] ex obtain bi ai where
    sel: "select_indices ks (time k) = (int bi, int ai)" "bi < length ks" "ai < length ks"
    and b: "time (ks ! bi) \<le> time k"
      "\<forall>j. bi < j \<and> j < length ks \<longrightarrow> \<not> time (ks ! j) \<le> time k"
    by auto
  from b(2) n have "n \<le> bi" by (meson not_le_imp_less order_refl)
  with sorted_nth_mono [OF assms(1), of n bi] sel(2) n have "time k \<le> time (ks ! bi)"
    by simp
  with b(1) have hit: "time (ks ! bi) = time k" by simp
  have later: "\<forall>j. bi < j \<and> j < length ks \<longrightarrow> time (ks ! j) \<noteq> time k"
    using b(2) by auto
  have "getCharacterProps ks (time k) = Inr (KeyframeObj (ks ! bi))"
    using getCharacterProps_selected [OF sel] hit by simp
  with sel hit later
  show "\<exists>i<length ks. fst (select_indices ks (time k)) = int i \<and> time (ks ! i) = time k \<and>
            (\<forall>j. i < j \<and> j < length ks \<longrightarrow> time (ks ! j) \<noteq> time k) \<and>
            getCharacterProps ks (time k) = Inr (KeyframeObj (ks ! i))"
    by (intro exI [of _ bi]) simp
  show "\<forall>t. time (ks ! nat (fst (select_indices ks t))) = t \<longrightarrow>
            getCharacterProps ks t = Inr (KeyframeObj (ks ! nat (fst (select_indices ks t))))"
  proof (intro allI impI)
    fix t
    assume eq: "time (ks ! nat (fst (select_indices ks t))) = t"
    from select_indices_char [OF ne, of t] obtain bi ai where
      sel: "select_indices ks t = (int bi, int ai)" "bi < length ks" "ai < length ks"
      by blast
    from getCharacterProps_selected [OF sel] eq sel(1)
    show "getCharacterProps ks t = Inr (KeyframeObj (ks ! nat (fst (select_indices ks t))))"
      by simp
  qed
qed

theorem exact_hit_on_ordered_list_witness:
  "sorted (map time (demo_animations @ [\<lparr>x = 0, y = 0, scale = 2, rotation = 0, time = 90\<rparr>])) \<and>
   demo_animations ! 3 \<in>
     set (demo_animations @ [\<lparr>x = 0, y = 0, scale = 2, rotation = 0, time = 90\<rparr>]) \<and>
   time (demo_animations ! 3) = 90 \<and>
   (\<exists>i<5. time ((demo_animations @ [\<lparr>x = 0, y = 0, scale = 2, rotation = 0, time = 90\<rparr>]) ! i) = 90 \<and>
      getCharacterProps (demo_animations @ [\<lparr>x = 0, y = 0, scale = 2, rotation = 0, time = 90\<rparr>]) 90 =
        Inr (KeyframeObj
          ((demo_animations @ [\<lparr>x = 0, y = 0, scale = 2, rotation = 0, time = 90\<rparr>]) ! i))) \<and>
   getCharacterProps (demo_animations @ [\<lparr>x = 0, y = 0, scale = 2, rotation = 0, time = 90\<rparr>]) 90 =
     Inr (KeyframeObj \<lparr>x = 0, y = 0, scale = 2, rotation = 0, time = 90\<rparr>)"
proof -
  let ?ks = "demo_animations @ [\<lparr>x = 0, y = 0, scale = 2, rotation = 0, time = 90\<rparr>]"
  have srt: "sorted (map time ?ks)" and mem: "demo_animations ! 3 \<in> set ?ks"
    and t: "time (demo_animations ! 3) = 90" and len: "length ?ks = 5"
    by (simp_all add: demo_animations_def)
  from exact_hit_on_ordered_list [OF srt mem] t len
  have "\<exists>i<5. time (?ks ! i) = 90 \<and> getCharacterProps ?ks 90 = Inr (KeyframeObj (?ks ! i))"
    by auto
  moreover have "getCharacterProps ?ks 90 =
      Inr (KeyframeObj \<lparr>x = 0, y = 0, scale = 2, rotation = 0, time = 90\<rparr>)"
    by (simp add: demo_animations_def getCharacterProps_def select_indices_def at_index_def)
  ultimately show ?thesis using srt mem t by blast
qed

lemma interpolate_equal_times:
  "time ka = time kb \<Longrightarrow> interpolate kb ka t = InterpolatedObj (props_of kb)"
  by (simp add: interpolate_def interpolation_factor_defined props_of_def)

lemma interpolate_finite: "interpolate kb ka t \<noteq> NonFiniteObj"
  by (simp add: interpolate_def interpolation_factor_defined)

text \<open>
  When the two selected positions differ, both were found by the loop: the query time
  lies between the two selected times.
\<close>

lemma distinct_positions_order:
  assumes "ks \<noteq> []" "select_indices ks t = (int bi, int ai)" "bi \<noteq> ai"
  shows "time (ks ! bi) \<le> t \<and> t \<le> time (ks ! ai)"
proof -
  from select_indices_char [OF assms(1), of t] assms(2) have
    len: "bi < length ks" "ai < length ks"
    and b: "if \<exists>k\<in>set ks. time k \<le> t
      then time (ks ! bi) \<le> t \<and> (\<forall>j. bi < j \<and> j < length ks \<longrightarrow> \<not> time (ks ! j) \<le> t)
      else bi = 0"
    and a: "if \<exists>k\<in>set ks. t \<le> time k
      then t \<le> time (ks ! ai) \<and> (\<forall>j<ai. \<not> t \<le> time (ks ! j))
      else ai = length ks - 1"
    by auto
  have eb: "\<exists>k\<in>set ks. time k \<le> t"
  proof (rule ccontr)
    assume none: "\<not> (\<exists>k\<in>set ks. time k \<le> t)"
    with b have "bi = 0" by simp
    from none len(2) have "t \<le> time (ks ! ai)" "t \<le> time (ks ! 0)"
      using assms(1) by (auto simp: less_imp_le not_le)
    then have "\<exists>k\<in>set ks. t \<le> time k" using len(2) by auto
    with a have "\<forall>j<ai. \<not> t \<le> time (ks ! j)" by simp
    with \<open>t \<le> time (ks ! 0)\<close> have "ai = 0" by auto
    with \<open>bi = 0\<close> assms(3) show False by simp
  qed
  have ea: "\<exists>k\<in>set ks. t \<le> time k"
  proof (rule ccontr)
    assume none: "\<not> (\<exists>k\<in>set ks. t \<le> time k)"
    with a have ai: "ai = length ks - 1" by simp
    from none have "time (ks ! (length ks - 1)) \<le> t"
      using assms(1) by (auto simp: less_imp_le not_le)
    moreover from eb b have "\<forall>j. bi < j \<and> j < length ks \<longrightarrow> \<not> time (ks ! j) \<le> t"
      by simp
    ultimately have "\<not> bi < length ks - 1" using assms(1) by auto
    with len(1) ai assms(3) show False by simp
  qed
  from eb ea a b show ?thesis by simp
qed

text \<open>
  C10: on a non-empty list the interpolator neither throws nor returns a non-finite
  object. A fresh object is built only when the two selected positions differ, and then
  the two selected times differ as well. The factor is always defined: for two keyframes
  of equal time it is 0 and the fresh object has the values of \<open>before\<close>. When the two
  selected keyframes have equal times the result is the \<open>before\<close> keyframe.
\<close>

theorem no_division_by_zero:
  assumes "ks \<noteq> []"
  shows "getCharacterProps ks t \<noteq> Inr NonFiniteObj \<and>
    getCharacterProps ks t \<noteq> Inl TypeError \<and>
    (\<forall>p. getCharacterProps ks t = Inr (InterpolatedObj p) \<longrightarrow>
       fst (select_indices ks t) \<noteq> snd (select_indices ks t) \<and>
       time (ks ! nat (fst (select_indices ks t))) \<noteq> time (ks ! nat (snd (select_indices ks t)))) \<and>
    (time (ks ! nat (fst (select_indices ks t))) = time (ks ! nat (snd (select_indices ks t))) \<longrightarrow>
       getCharacterProps ks t = Inr (KeyframeObj (ks ! nat (fst (select_indices ks t))))) \<and>
    interpolation_factor kb ka s \<noteq> None \<and>
    (time ka = time kb \<longrightarrow>
       interpolation_factor kb ka s = Some 0 \<and>
       interpolate kb ka s = InterpolatedObj (props_of kb))"
proof -
  from select_indices_char [OF assms, of t] obtain bi ai where
    sel: "select_indices ks t = (int bi, int ai)" "bi < length ks" "ai < length ks"
    by blast
  note res = getCharacterProps_selected [OF sel]
  have order: "time (ks ! bi) < time (ks ! ai)" if "bi \<noteq> ai" "time (ks ! bi) \<noteq> t"
    using distinct_positions_order [OF assms sel(1) that(1)] that(2) by simp
  have 1: "getCharacterProps ks t \<noteq> Inr NonFiniteObj"
    using res by (simp add: interpolate_finite)
  have 2: "getCharacterProps ks t \<noteq> Inl TypeError"
    using res by simp
  have 3: "fst (select_indices ks t) \<noteq> snd (select_indices ks t) \<and>
       time (ks ! nat (fst (select_indices ks t))) \<noteq> time (ks ! nat (snd (select_indices ks t)))"
    if "getCharacterProps ks t = Inr (InterpolatedObj p)" for p
  proof -
    from that res have "bi \<noteq> ai" "time (ks ! bi) \<noteq> t"
      by (auto split: if_splits)
    with order sel(1) show ?thesis by auto
  qed
  have 4: "getCharacterProps ks t = Inr (KeyframeObj (ks ! nat (fst (select_indices ks t))))"
    if "time (ks ! nat (fst (select_indices ks t))) = time (ks ! nat (snd (select_indices ks t)))"
  proof -
    from that sel(1) have "time (ks ! bi) = time (ks ! ai)" by simp
    with order have "bi = ai \<or> time (ks ! bi) = t" by fastforce
    with res sel(1) show ?thesis by auto
  qed
  have 5: "interpolation_factor kb ka s \<noteq> None"
    by (simp add: interpolation_factor_defined)
  have 6: "interpolation_factor kb ka s = Some 0 \<and>
       interpolate kb ka s = InterpolatedObj (props_of kb)" if "time ka = time kb"
    using that by (simp add: interpolation_factor_defined interpolate_equal_times)
  from 1 2 3 4 5 6 show ?thesis by blast
qed

theorem no_division_by_zero_witness:
  "demo_animations \<noteq> [] \<and>
   getCharacterProps demo_animations 45 =
     Inr (InterpolatedObj \<lparr>x = 55, y = 60, scale = 11 / 10, rotation = 45 / 2\<rparr>) \<and>
   select_indices demo_animations 45 = (1, 2) \<and>
   time (demo_animations ! 1) \<noteq> time (demo_animations ! 2) \<and>
   select_indices demo_animations 30 = (1, 1) \<and>
   getCharacterProps demo_animations 30 = Inr (KeyframeObj (demo_animations ! 1)) \<and>
   time (demo_animations ! 3) = time ((demo_animations ! 0)\<lparr>time := 90\<rparr>) \<and>
   interpolation_factor ((demo_animations ! 0)\<lparr>time := 90\<rparr>) (demo_animations ! 3) 45 = Some 0 \<and>
   interpolate ((demo_animations ! 0)\<lparr>time := 90\<rparr>) (demo_animations ! 3) 45 =
     InterpolatedObj \<lparr>x = 10, y = 50, scale = 1, rotation = 0\<rparr>"
proof -
  have ne: "demo_animations \<noteq> []"
    by (simp add: demo_animations_def)
  have s45: "select_indices demo_animations 45 = (1, 2)"
    and s30: "select_indices demo_animations 30 = (1, 1)"
    by (simp_all add: demo_animations_def select_indices_def)
  have r45: "getCharacterProps demo_animations 45 =
     Inr (InterpolatedObj \<lparr>x = 55, y = 60, scale = 11 / 10, rotation = 45 / 2\<rparr>)"
    by (simp add: getCharacterProps_def select_indices_def at_index_def interpolate_def
        interpolation_factor_def js_divide_def demo_animations_def)
  have eq: "time (demo_animations ! 3) = time ((demo_animations ! 0)\<lparr>time := 90\<rparr>)"
    by (simp add: demo_animations_def)
  have p: "props_of ((demo_animations ! 0)\<lparr>time := 90\<rparr>) = \<lparr>x = 10, y = 50, scale = 1, rotation = 0\<rparr>"
    by (simp add: demo_animations_def props_of_def)
  from no_division_by_zero [OF ne, of 45 "(demo_animations ! 0)\<lparr>time := 90\<rparr>" "demo_animations ! 3" 45]
    r45 s45 eq p
  have "time (demo_animations ! 1) \<noteq> time (demo_animations ! 2)"
    and "interpolation_factor ((demo_animations ! 0)\<lparr>time := 90\<rparr>) (demo_animations ! 3) 45 = Some 0"
    and "interpolate ((demo_animations ! 0)\<lparr>time := 90\<rparr>) (demo_animations ! 3) 45 =
       InterpolatedObj \<lparr>x = 10, y = 50, scale = 1, rotation = 0\<rparr>"
    by simp_all
  moreover from no_division_by_zero [OF ne, of 30] s30
  have "getCharacterProps demo_animations 30 = Inr (KeyframeObj (demo_animations ! 1))"
    by simp
  ultimately show ?thesis using ne r45 s45 s30 eq by simp
qed

text \<open>
  C6: on a list of exactly one keyframe the interpolator returns that keyframe, whatever
  the query time (below, equal to or above the keyframe's time).
\<close>

theorem single_keyframe_returned:
  "getCharacterProps [k] t = Inr (KeyframeObj k)"
  by (simp add: getCharacterProps_def select_indices_def at_index_def)

text \<open>
  C8 does not hold of the code: it has no test for an empty list and no error of its
  own for it. On the empty list the loop does not run, the fallbacks of lines 138-139
  (\<^verbatim>\<open>// Handle edge cases\<close>) leave the indices 0 and \<open>- 1\<close>, the second being the
  very value the fallback was to replace, and both lie outside the array; line 142 then
  reads \<^verbatim>\<open>time\<close> of \<^verbatim>\<open>undefined\<close>, which throws a \<^verbatim>\<open>TypeError\<close>.
\<close>

theorem empty_list_reads_out_of_range:
  "select_indices [] t = (0, - 1) \<and>
   at_index ([] :: keyframe list) 0 = None \<and>
   at_index ([] :: keyframe list) (- 1) = None \<and>
   getCharacterProps [] t = Inl TypeError"
  by (simp add: getCharacterProps_def select_indices_def at_index_def)

subsection \<open>The clock\<close>

lemma frame_armed_initial: "frame_armed (initial_clock d t0)"
  by (simp add: frame_armed_def initial_clock_def)

lemma frame_armed_play_pause: "frame_armed s \<Longrightarrow> frame_armed (play_pause s)"
  by (auto simp: frame_armed_def play_pause_def start_effect_def cleanup_effect_def
      cancelAnimationFrame_def requestAnimationFrame_def Let_def split: option.splits)

lemma animation_frame_paused:
  "frame_armed s \<Longrightarrow> \<not> isPlaying s \<Longrightarrow> animation_frame now s = s"
  by (simp add: frame_armed_def animation_frame_def)

lemma frame_armed_animation_frame: "frame_armed s \<Longrightarrow> frame_armed (animation_frame now s)"
  by (cases "isPlaying s")
    (auto simp: frame_armed_def animation_frame_def updateAnimation_def
      requestAnimationFrame_def Let_def split: option.splits)

lemma frame_armed_step: "frame_armed s \<Longrightarrow> frame_armed (step e s)"
  by (cases e)
    (simp_all add: frame_armed_play_pause frame_armed_animation_frame,
     auto simp: frame_armed_def skip_back_def reset_def skip_forward_def
       split: if_splits option.splits)

lemma frame_armed_run: "frame_armed s \<Longrightarrow> frame_armed (run es s)"
  unfolding run_def by (induction es arbitrary: s) (simp_all add: frame_armed_step)

lemma isPlaying_step: "e \<noteq> PlayPause \<Longrightarrow> frame_armed s \<Longrightarrow> \<not> isPlaying s \<Longrightarrow> \<not> isPlaying (step e s)"
  by (cases e) (simp_all add: animation_frame_paused skip_back_def reset_def skip_forward_def)

lemma paused_run_drops_frames:
  "frame_armed s \<Longrightarrow> \<not> isPlaying s \<Longrightarrow> PlayPause \<notin> set es \<Longrightarrow>
   run es s = run (filter (\<lambda>e. \<not> is_frame e) es) s"
  unfolding run_def
proof (induction es arbitrary: s)
  case Nil
  show ?case by simp
next
  case (Cons e es)
  show ?case
  proof (cases e)
    case (Frame now)
    with Cons show ?thesis by (simp add: animation_frame_paused)
  next
    case PlayPause
    with Cons.prems show ?thesis by simp
  qed (use Cons frame_armed_step [of s e] isPlaying_step [of e s] in auto)
qed

lemma paused_frames_noop:
  "frame_armed s \<Longrightarrow> \<not> isPlaying s \<Longrightarrow> run (map Frame nows) s = s"
  unfolding run_def by (induction nows) (simp_all add: animation_frame_paused)

lemma play_pause_flips: "isPlaying (play_pause s) = (\<not> isPlaying s)"
  by (simp add: play_pause_def start_effect_def cleanup_effect_def
      cancelAnimationFrame_def requestAnimationFrame_def Let_def split: option.splits)

text \<open>
  C5: with a positive duration and a tick delta that is not negative, a tick sets
  \<^verbatim>\<open>currentTime\<close> to 0 when \<^verbatim>\<open>currentTime\<close> plus the delta reaches the duration,
  however far beyond it, and to \<^verbatim>\<open>currentTime\<close> plus the delta otherwise. From 118
  with duration 120 a delta of 5 seconds gives 0, not 3.
\<close>

theorem tick_wraps_to_zero:
  assumes "0 < duration s" "0 \<le> delta" "now = lastUpdateTime s + 1000 * delta"
  shows "(duration s \<le> currentTime s + delta \<longrightarrow> currentTime (updateAnimation now s) = 0) \<and>
         (currentTime s + delta < duration s \<longrightarrow>
            currentTime (updateAnimation now s) = currentTime s + delta) \<and>
         lastUpdateTime (updateAnimation now s) = now"
  using assms by (simp add: updateAnimation_def requestAnimationFrame_def Let_def)

theorem tick_wraps_to_zero_witness:
  "0 < duration ((initial_clock 120 1000)\<lparr>currentTime := 118\<rparr>) \<and> (0::real) \<le> 5 \<and>
   (6000::real) = lastUpdateTime ((initial_clock 120 1000)\<lparr>currentTime := 118\<rparr>) + 1000 * 5 \<and>
   duration ((initial_clock 120 1000)\<lparr>currentTime := 118\<rparr>)
     \<le> currentTime ((initial_clock 120 1000)\<lparr>currentTime := 118\<rparr>) + 5 \<and>
   currentTime (updateAnimation 6000 ((initial_clock 120 1000)\<lparr>currentTime := 118\<rparr>)) = 0 \<and>
   currentTime (updateAnimation 6000 ((initial_clock 120 1000)\<lparr>currentTime := 118\<rparr>)) \<noteq> 3 \<and>
   currentTime ((initial_clock 120 1000)\<lparr>currentTime := 100\<rparr>) + 5
     < duration ((initial_clock 120 1000)\<lparr>currentTime := 100\<rparr>) \<and>
   currentTime (updateAnimation 6000 ((initial_clock 120 1000)\<lparr>currentTime := 100\<rparr>)) = 105"
  using tick_wraps_to_zero [of "(initial_clock 120 1000)\<lparr>currentTime := 118\<rparr>" 5 6000]
    tick_wraps_to_zero [of "(initial_clock 120 1000)\<lparr>currentTime := 100\<rparr>" 5 6000]
  by (simp add: initial_clock_def)

text \<open>
  C7: from a state with \<^verbatim>\<open>currentTime\<close> between 0 and the duration, the button for 10
  seconds back gives \<open>max 0 (currentTime - 10)\<close>, the button for 10 seconds forward gives
  \<open>min duration (currentTime + 10)\<close>, and Reset gives 0; each result lies between 0 and
  the duration.
\<close>

theorem seek_buttons_stay_in_range:
  assumes "0 \<le> currentTime s" "currentTime s \<le> duration s"
  shows "currentTime (skip_back s) = max 0 (currentTime s - 10) \<and>
         0 \<le> currentTime (skip_back s) \<and> currentTime (skip_back s) \<le> duration s \<and>
         currentTime (skip_forward s) = min (duration s) (currentTime s + 10) \<and>
         0 \<le> currentTime (skip_forward s) \<and> currentTime (skip_forward s) \<le> duration s \<and>
         currentTime (reset s) = 0 \<and>
         0 \<le> currentTime (reset s) \<and> currentTime (reset s) \<le> duration s"
  using assms by (simp add: skip_back_def skip_forward_def reset_def)

theorem seek_buttons_stay_in_range_witness:
  "0 \<le> currentTime ((initial_clock 120 1000)\<lparr>currentTime := 115\<rparr>) \<and>
   currentTime ((initial_clock 120 1000)\<lparr>currentTime := 115\<rparr>)
     \<le> duration ((initial_clock 120 1000)\<lparr>currentTime := 115\<rparr>) \<and>
   currentTime (skip_forward ((initial_clock 120 1000)\<lparr>currentTime := 115\<rparr>)) = 120 \<and>
   currentTime (skip_back ((initial_clock 120 1000)\<lparr>currentTime := 115\<rparr>)) = 105 \<and>
   currentTime (skip_back ((initial_clock 120 1000)\<lparr>currentTime := 4\<rparr>)) = 0 \<and>
   currentTime (reset ((initial_clock 120 1000)\<lparr>currentTime := 115\<rparr>)) = 0"
  using seek_buttons_stay_in_range [of "(initial_clock 120 1000)\<lparr>currentTime := 115\<rparr>"]
    seek_buttons_stay_in_range [of "(initial_clock 120 1000)\<lparr>currentTime := 4\<rparr>"]
  by (simp add: initial_clock_def)

text \<open>
  C9: take any state the clock reaches from mounting in which it is playing, and pause
  it. No callback is left in the browser's queue, so every animation frame delivered
  after that leaves the whole state, and with it \<^verbatim>\<open>currentTime\<close>, unchanged; until the
  next click on Play the clock moves only by the seek buttons.
\<close>

theorem pause_suppresses_ticks:
  assumes "isPlaying (run es (initial_clock d t0))"
    and "p = play_pause (run es (initial_clock d t0))"
    and "PlayPause \<notin> set es'"
  shows "\<not> isPlaying p \<and> frameCallbacks p = [] \<and>
         run (map Frame nows) p = p \<and>
         currentTime (run (map Frame nows) p) = currentTime p \<and>
         run es' p = run (filter (\<lambda>e. \<not> is_frame e) es') p"
proof -
  have armed: "frame_armed p"
    unfolding assms(2)
    by (intro frame_armed_play_pause frame_armed_run frame_armed_initial)
  have paused: "\<not> isPlaying p"
    using assms(1) by (simp add: assms(2) play_pause_flips)
  from armed paused have "frameCallbacks p = []"
    by (simp add: frame_armed_def)
  moreover have "run (map Frame nows) p = p"
    using armed paused by (rule paused_frames_noop)
  moreover have "run es' p = run (filter (\<lambda>e. \<not> is_frame e) es') p"
    using armed paused assms(3) by (rule paused_run_drops_frames)
  ultimately show ?thesis using paused by simp
qed

theorem pause_suppresses_ticks_witness:
  "isPlaying (run [PlayPause, Frame 1016, Frame 1033] (initial_clock 120 1000)) \<and>
   PlayPause \<notin> set [Frame 1050, SkipForward, Frame 1066] \<and>
   currentTime (play_pause (run [PlayPause, Frame 1016, Frame 1033] (initial_clock 120 1000)))
     = 33 / 1000 \<and>
   currentTime (run (map Frame [1050, 1066])
      (play_pause (run [PlayPause, Frame 1016, Frame 1033] (initial_clock 120 1000))))
     = 33 / 1000 \<and>
   run [Frame 1050, SkipForward, Frame 1066]
      (play_pause (run [PlayPause, Frame 1016, Frame 1033] (initial_clock 120 1000)))
     = run [SkipForward]
        (play_pause (run [PlayPause, Frame 1016, Frame 1033] (initial_clock 120 1000)))"
proof -
  let ?s = "run [PlayPause, Frame 1016, Frame 1033] (initial_clock 120 1000)"
  have s: "?s = \<lparr>currentTime = 33 / 1000, isPlaying = True, lastUpdateTime = 1033,
      animationFrameRef = Some 3, frameCallbacks = [3], frameHandle = 3, duration = 120\<rparr>"
    by (simp add: run_def play_pause_def start_effect_def animation_frame_def
        updateAnimation_def requestAnimationFrame_def initial_clock_def Let_def)
  have playing: "isPlaying ?s"
    by (simp add: s)
  have no_click: "PlayPause \<notin> set [Frame 1050, SkipForward, Frame 1066]"
    by simp
  have t: "currentTime (play_pause ?s) = 33 / 1000"
    by (simp add: s play_pause_def start_effect_def cleanup_effect_def
        cancelAnimationFrame_def Let_def)
  from pause_suppresses_ticks [OF playing refl no_click, of "[1050, 1066]"] t playing no_click
  show ?thesis by simp
qed

end
